theory Spec2Isabelle
  imports Main "HOL-Library.Sublist"
begin

section \<open>Errors and durations\<close>

text \<open>
  Go's \<^verbatim>\<open>error\<close> values that the package can produce or pass on. A \<^verbatim>\<open>nil\<close> error is
  \<open>None\<close> of \<open>error option\<close>. \<open>SinkError\<close> stands for whatever a Backupper returns.
\<close>

datatype error =
    Canceled
  | DeadlineExceeded
  | RegexpError
  | BackupperNil
  | NotEnoughLines
  | NoResults
  | InvalidEntry string
  | SinkError string
  | NilDereference

text \<open>\<^verbatim>\<open>time.Duration\<close> is a count of nanoseconds.\<close>

type_synonym Duration = int

definition Second :: Duration where
  "Second = 1000000000"

definition Minute :: Duration where
  "Minute = 60 * Second"

section \<open>The library functions the parser calls\<close>

text \<open>
  \<^verbatim>\<open>strings.Index\<close>, as the cut it makes: the text before the first occurrence of \<open>sep\<close>
  and the text after it, or \<open>None\<close> when \<open>sep\<close> does not occur.
\<close>

fun cut :: "string \<Rightarrow> string \<Rightarrow> (string \<times> string) option" where
  "cut sep [] = (if sep = [] then Some ([], []) else None)"
| "cut sep (c # cs) =
     (if prefix sep (c # cs) then Some ([], drop (length sep) (c # cs))
      else (case cut sep cs of None \<Rightarrow> None | Some (b, a) \<Rightarrow> Some (c # b, a)))"

text \<open>\<^verbatim>\<open>strings.Contains(s, substr)\<close> is \<^verbatim>\<open>Index(s, substr) >= 0\<close>.\<close>

definition Contains :: "string \<Rightarrow> string \<Rightarrow> bool" where
  "Contains s substr = (cut substr s \<noteq> None)"

lemma cut_shorter:
  "cut sep s = Some (b, a) \<Longrightarrow> sep \<noteq> [] \<Longrightarrow> length a < length s"
proof (induction s arbitrary: b a)
  case Nil
  then show ?case by simp
next
  case (Cons c cs)
  show ?case
  proof (cases "prefix sep (c # cs)")
    case True
    with Cons.prems show ?thesis by auto
  next
    case False
    with Cons.prems obtain b' where "cut sep cs = Some (b', a)"
      by (auto split: option.splits)
    with Cons.IH Cons.prems(2) show ?thesis by fastforce
  qed
qed

text \<open>
  \<^verbatim>\<open>strings.Split(s, sep)\<close>: cut at the first occurrence of \<open>sep\<close>, then split the rest;
  a string without the separator is the only element. With an empty separator Go
  explodes the string into its characters; the package never passes one.
\<close>

function Split :: "string \<Rightarrow> string \<Rightarrow> string list" where
  "Split s sep =
     (if sep = [] then map (\<lambda>c. [c]) s
      else (case cut sep s of None \<Rightarrow> [s] | Some (b, a) \<Rightarrow> b # Split a sep))"
  by pat_completeness auto
termination
  by (relation "measure (\<lambda>(s, sep). length s)") (auto dest: cut_shorter)

declare Split.simps [simp del]

text \<open>\<^verbatim>\<open>strings.Join(elems, sep)\<close>: the elements with \<open>sep\<close> between them.\<close>

fun Join :: "string list \<Rightarrow> string \<Rightarrow> string" where
  "Join [] sep = []"
| "Join [x] sep = x"
| "Join (x # y # ys) sep = x @ sep @ Join (y # ys) sep"

text \<open>
  \<^verbatim>\<open>strconv.ParseInt(s, 10, 64)\<close>: an optional sign, then at least one decimal digit and
  nothing else, and the value must fit a signed 64-bit integer. A digit is a byte from
  \<^verbatim>\<open>'0'\<close> (48) to \<^verbatim>\<open>'9'\<close> (57). The parser only looks at whether the call failed,
  so the failure is \<open>None\<close>.
\<close>

definition is_digit :: "char \<Rightarrow> bool" where
  "is_digit c = (48 \<le> (of_char c :: int) \<and> (of_char c :: int) \<le> 57)"

definition digit_val :: "char \<Rightarrow> int option" where
  "digit_val c = (if is_digit c then Some (of_char c - 48) else None)"

fun parse_digits :: "string \<Rightarrow> int \<Rightarrow> int option" where
  "parse_digits [] acc = Some acc"
| "parse_digits (c # cs) acc =
     (case digit_val c of None \<Rightarrow> None | Some d \<Rightarrow> parse_digits cs (acc * 10 + d))"

definition ParseInt :: "string \<Rightarrow> int option" where
  "ParseInt s =
     (if s = [] then None
      else
        let neg = (hd s = CHR ''-'');
            body = (if hd s = CHR ''+'' \<or> hd s = CHR ''-'' then tl s else s)
        in if body = [] then None
           else (case parse_digits body 0 of
                   None \<Rightarrow> None
                 | Some un \<Rightarrow>
                     if \<not> neg \<and> un \<ge> 2 ^ 63 then None
                     else if neg \<and> un > 2 ^ 63 then None
                     else Some (if neg then - un else un)))"

section \<open>The save-query response parser\<close>

record File =
  Name :: string
  Length :: int

text \<open>
  The loop of \<^verbatim>\<open>parseSaveQuery\<close> over the entries: \<open>i\<close> is the index being written,
  \<open>files\<close> the slice made with one zero \<^verbatim>\<open>File\<close> per entry. An error returns the slice
  as filled so far together with the error.
\<close>

fun parse_entries :: "string list \<Rightarrow> nat \<Rightarrow> File list \<Rightarrow> File list \<times> error option" where
  "parse_entries [] i files = (files, None)"
| "parse_entries (e # es) i files =
     (let f = Split e '':'' in
      if length f < 2 then (files, Some (InvalidEntry e))
      else (case ParseInt (f ! 1) of
              None \<Rightarrow> (files, Some (InvalidEntry e))
            | Some len \<Rightarrow>
                parse_entries es (i + 1) (files[i := \<lparr>Name = f ! 0, Length = len\<rparr>])))"

definition parseSaveQuery :: "string \<Rightarrow> File list \<times> error option" where
  "parseSaveQuery response =
     (let lines = Split response ''\<newline>'' in
      if length lines < 1 then ([], Some NotEnoughLines)
      else
        let resultLine =
              (case find (\<lambda>line. Contains line ''levelname.txt'') lines of
                 None \<Rightarrow> [] | Some line \<Rightarrow> line)
        in if resultLine = [] then ([], Some NoResults)
           else
             let entries = Split (lines ! (length lines - 1)) '', '';
                 files = replicate (length entries) \<lparr>Name = [], Length = 0\<rparr>
             in parse_entries entries 0 files)"

section \<open>Path resolution\<close>

text \<open>
  The functions of Go's \<^verbatim>\<open>path/filepath\<close> that \<^verbatim>\<open>realFilePath\<close> calls, for the slash-separated
  paths of the platform the server runs on. \<^verbatim>\<open>Clean\<close> follows the rules of its
  documentation: empty elements and \<^verbatim>\<open>.\<close> are dropped, \<^verbatim>\<open>..\<close> removes the element before it,
  is dropped at the root and is kept at the head of a relative path, and the empty result
  is \<^verbatim>\<open>.\<close>. The elements kept so far are \<open>out\<close>.
\<close>

definition clean_step :: "bool \<Rightarrow> string list \<Rightarrow> string \<Rightarrow> string list" where
  "clean_step rooted out c =
     (if c = ''..''
      then (if out \<noteq> [] \<and> last out \<noteq> ''..'' then butlast out
            else if rooted then out
            else out @ [''..''])
      else out @ [c])"

definition Clean :: "string \<Rightarrow> string" where
  "Clean path =
     (if path = [] then ''.''
      else
        let rooted = (hd path = CHR ''/'');
            elems = filter (\<lambda>c. c \<noteq> [] \<and> c \<noteq> ''.'') (Split path ''/'');
            out = Join (foldl (clean_step rooted) [] elems) ''/''
        in if rooted then CHR ''/'' # out
           else if out = [] then ''.'' else out)"

text \<open>
  \<^verbatim>\<open>Base\<close> strips trailing slashes and returns what follows the last slash; \<^verbatim>\<open>Dir\<close> cleans
  what precedes the last element, the slash included; \<^verbatim>\<open>filepath.Join\<close> skips leading empty
  elements, joins the rest with slashes and cleans the result.
\<close>

definition Base :: "string \<Rightarrow> string" where
  "Base path =
     (if path = [] then ''.''
      else
        let stripped = rev (dropWhile (\<lambda>c. c = CHR ''/'') (rev path));
            elem = rev (takeWhile (\<lambda>c. c \<noteq> CHR ''/'') (rev stripped))
        in if elem = [] then ''/'' else elem)"

definition Dir :: "string \<Rightarrow> string" where
  "Dir path = Clean (rev (dropWhile (\<lambda>c. c \<noteq> CHR ''/'') (rev path)))"

definition filepath_Join :: "string list \<Rightarrow> string" where
  "filepath_Join elem =
     (case dropWhile (\<lambda>e. e = []) elem of
        [] \<Rightarrow> []
      | e # es \<Rightarrow> Clean (Join (e # es) ''/''))"

text \<open>
  \<^verbatim>\<open>realFilePath\<close> as the version with the static list \<^verbatim>\<open>nonDBFiles\<close> has it. (The later
  version of the file asks the file system whether the reported path exists instead.)
\<close>

definition nonDBFiles :: "string list" where
  "nonDBFiles = [''level.dat'', ''level.dat_old'', ''levelname.txt'']"

definition realFilePath :: "File \<Rightarrow> string" where
  "realFilePath file =
     (let base = Base (Name file);
          dir = Dir (Name file);
          nonDBFile = list_ex (\<lambda>f. base = f) nonDBFiles;
          dir = (if \<not> nonDBFile then filepath_Join [dir, ''db''] else dir)
      in filepath_Join [dir, base])"

section \<open>The console\<close>

text \<open>
  The console owns the subscriber registry \<^verbatim>\<open>subs\<close>, a Go map from channels to \<^verbatim>\<open>true\<close>, and
  the queue of commands that its writer goroutine writes to the server, one line each.
  A channel is known by the number it was made with. \<open>inputQueue\<close> lists the commands
  handed to the queue, oldest first.
\<close>

type_synonym chan = nat

record console =
  subs :: "chan \<rightharpoonup> bool"
  inputQueue :: "string list"

definition SendRawCommand :: "console \<Rightarrow> string \<Rightarrow> console" where
  "SendRawCommand c rawCommand = c\<lparr>inputQueue := inputQueue c @ [rawCommand]\<rparr>"

definition Subscribe :: "console \<Rightarrow> chan \<Rightarrow> console" where
  "Subscribe c messages = c\<lparr>subs := (subs c)(messages \<mapsto> True)\<rparr>"

definition Unsubscribe :: "console \<Rightarrow> chan \<Rightarrow> console" where
  "Unsubscribe c messages = c\<lparr>subs := (subs c)(messages := None)\<rparr>"

record Server =
  console :: console
  backupMutex :: bool

section \<open>Sending a command and waiting for its response\<close>

text \<open>
  \<^verbatim>\<open>SendRawCommandWaitResponse\<close> loops over a \<^verbatim>\<open>select\<close> with two cases: the context is done,
  or a line arrives on the subscribed channel. Which case fires, and with what, is decided
  outside the program, so the model takes the cases in the order they fire: \<open>Done err\<close>
  carries what \<^verbatim>\<open>ctx.Err()\<close> returns, \<open>Message m\<close> the line. When the list ends without a
  return the call is still blocked, which is the result \<open>None\<close>. A compiled regular
  expression is the predicate \<^verbatim>\<open>MatchString\<close>.
\<close>

datatype select_case = Done error | Message string

type_synonym regexp = "string \<Rightarrow> bool"

fun wait_response :: "regexp \<Rightarrow> string \<Rightarrow> select_case list \<Rightarrow> (string \<times> error option) option" where
  "wait_response respRegex output [] = None"
| "wait_response respRegex output (Done e # later) = Some (output, Some e)"
| "wait_response respRegex output (Message m # later) =
     (let output = (if output = [] then m else output @ ''\<newline>'' @ m)
      in if respRegex output then Some (output, None)
         else wait_response respRegex output later)"

text \<open>
  The state a call works in. \<open>made\<close> counts the channels made so far, so the next
  \<^verbatim>\<open>make(chan string)\<close> returns channel number \<open>made\<close>. \<open>waits\<close> holds, for each wait still to
  come, the cases its \<^verbatim>\<open>select\<close> will take. \<open>pause\<close> is what the \<^verbatim>\<open>select\<close> after the hold sees:
  \<open>None\<close> when the timer fires first, the context's error when the context is done first.
  \<open>timeouts\<close> records every \<^verbatim>\<open>context.WithTimeout\<close> the save commands make, with the command
  it is made for; the program keeps no such list, the claims about timeouts read it.
\<close>

record world =
  server :: Server
  made :: nat
  waits :: "select_case list list"
  pause :: "error option"
  timeouts :: "(string \<times> Duration) list"

text \<open>
  \<^verbatim>\<open>regexp.Compile\<close> is the parameter \<open>Compile\<close>; \<open>None\<close> is its error. The argument \<open>ctx\<close> is
  the list of cases the \<^verbatim>\<open>select\<close> of this call takes. The deferred \<^verbatim>\<open>Unsubscribe\<close> runs on
  every return after the subscription; closing the channel leaves no trace in the state.
\<close>

definition SendRawCommandWaitResponse ::
  "(string \<Rightarrow> regexp option) \<Rightarrow> select_case list \<Rightarrow> world \<Rightarrow> string \<Rightarrow> string
     \<Rightarrow> ((string \<times> error option) \<times> world) option" where
  "SendRawCommandWaitResponse Compile ctx w rawCommand response =
     (case Compile response of
        None \<Rightarrow> Some (([], Some RegexpError), w)
      | Some respRegex \<Rightarrow>
          let messages = made w;
              c = SendRawCommand (Subscribe (console (server w)) messages) rawCommand
          in (case wait_response respRegex [] ctx of
                None \<Rightarrow> None
              | Some (output, err) \<Rightarrow>
                  Some ((output, err),
                        w\<lparr>server := (server w)\<lparr>console := Unsubscribe c messages\<rparr>,
                          made := made w + 1\<rparr>)))"

text \<open>
  The three save commands. Each derives a context with the given timeout (the next
  entry of \<open>waits\<close> says what a wait under that context sees) and sends its command with
  the pattern of its acknowledgement. The backslash of the hold pattern is character 0x5C.
\<close>

definition hold_pattern :: string where
  "hold_pattern = ''(?m)^Saving'' @ [CHR 0x5C, CHR ''.'', CHR 0x5C, CHR ''.'', CHR 0x5C, CHR ''.'']"

definition query_pattern :: string where
  "query_pattern = ''(?s)Data saved. Files are now ready to be copied.*levelname.txt''"

definition resume_pattern :: string where
  "resume_pattern = ''(?m)^Changes to the world are resumed''"

definition WithTimeout :: "world \<Rightarrow> string \<Rightarrow> Duration \<Rightarrow> select_case list \<times> world" where
  "WithTimeout w rawCommand timeout =
     ((case waits w of [] \<Rightarrow> [] | c # later \<Rightarrow> c),
      w\<lparr>waits := tl (waits w), timeouts := timeouts w @ [(rawCommand, timeout)]\<rparr>)"

definition saveHold :: "(string \<Rightarrow> regexp option) \<Rightarrow> world \<Rightarrow> Duration \<Rightarrow> (error option \<times> world) option" where
  "saveHold Compile w timeout =
     (let (c, w) = WithTimeout w ''save hold'' timeout
      in (case SendRawCommandWaitResponse Compile c w ''save hold'' hold_pattern of
            None \<Rightarrow> None
          | Some ((output, err), w) \<Rightarrow> Some (err, w)))"

definition saveQuery ::
  "(string \<Rightarrow> regexp option) \<Rightarrow> world \<Rightarrow> Duration \<Rightarrow> ((string \<times> error option) \<times> world) option" where
  "saveQuery Compile w timeout =
     (let (c, w) = WithTimeout w ''save query'' timeout
      in SendRawCommandWaitResponse Compile c w ''save query'' query_pattern)"

definition saveResume :: "(string \<Rightarrow> regexp option) \<Rightarrow> world \<Rightarrow> Duration \<Rightarrow> (error option \<times> world) option" where
  "saveResume Compile w timeout =
     (let (c, w) = WithTimeout w ''save resume'' timeout
      in (case SendRawCommandWaitResponse Compile c w ''save resume'' resume_pattern of
            None \<Rightarrow> None
          | Some ((output, err), w) \<Rightarrow> Some (err, w)))"

section \<open>The backup sequence\<close>

record BackupOptions =
  Backupper :: "(File list \<Rightarrow> error option) option"
  CommandTimeout :: Duration
  SavePause :: Duration

definition defaultOptions :: "BackupOptions \<Rightarrow> BackupOptions \<times> error option" where
  "defaultOptions opts =
     (let b = opts in
      if Backupper b = None then (b, Some BackupperNil)
      else
        let b = (if CommandTimeout b = 0 then b\<lparr>CommandTimeout := 3 * Second\<rparr> else b);
            b = (if SavePause b = 0 then b\<lparr>SavePause := 3 * Second\<rparr> else b)
        in (b, None))"

text \<open>
  The query loop \<^verbatim>\<open>for retry := 3; retry > 0; retry--\<close>: it leaves with the first query
  that returns no error, and otherwise runs until \<open>retry\<close> is used up, keeping the last
  output and error. Sleeping between attempts changes nothing in the state.
\<close>

fun query_retry ::
  "(string \<Rightarrow> regexp option) \<Rightarrow> Duration \<Rightarrow> nat \<Rightarrow> string \<times> error option \<Rightarrow> world
     \<Rightarrow> ((string \<times> error option) \<times> world) option" where
  "query_retry Compile timeout 0 result w = Some (result, w)"
| "query_retry Compile timeout (Suc retry) result w =
     (case saveQuery Compile w timeout of
        None \<Rightarrow> None
      | Some ((output, err), w) \<Rightarrow>
          if err = None then Some ((output, err), w)
          else query_retry Compile timeout retry (output, err) w)"

text \<open>
  The body of \<^verbatim>\<open>Backup\<close> after its deferred calls are set up. It returns the value of the
  \<^verbatim>\<open>return\<close> statement reached, the value the variable \<^verbatim>\<open>err\<close> has at that moment (the
  deferred closure reads the variable, and \<^verbatim>\<open>return ctx.Err()\<close> does not assign it), and the
  state. Calling the method of a nil \<^verbatim>\<open>Backupper\<close> would panic; \<^verbatim>\<open>defaultOptions\<close> excludes it.
\<close>

definition Backup_steps ::
  "(string \<Rightarrow> regexp option) \<Rightarrow> BackupOptions \<Rightarrow> world
     \<Rightarrow> (error option \<times> error option \<times> world) option" where
  "Backup_steps Compile opts w =
     (case saveHold Compile w (CommandTimeout opts) of
        None \<Rightarrow> None
      | Some (err, w) \<Rightarrow>
          if err \<noteq> None then Some (err, err, w)
          else (case pause w of
                  Some ctxErr \<Rightarrow> Some (Some ctxErr, err, w)
                | None \<Rightarrow>
                    (case query_retry Compile (CommandTimeout opts) 3 ([], err) w of
                       None \<Rightarrow> None
                     | Some ((output, err), w) \<Rightarrow>
                         if err \<noteq> None then Some (err, err, w)
                         else (case parseSaveQuery output of
                                 (files, Some e) \<Rightarrow> Some (Some e, Some e, w)
                               | (files, None) \<Rightarrow>
                                   (case Backupper opts of
                                      None \<Rightarrow> Some (Some NilDereference, Some NilDereference, w)
                                    | Some backup \<Rightarrow>
                                        (case backup files of
                                           Some e \<Rightarrow> Some (Some e, Some e, w)
                                         | None \<Rightarrow>
                                             (case saveResume Compile w (CommandTimeout opts) of
                                                None \<Rightarrow> None
                                              | Some (err, w) \<Rightarrow> Some (err, err, w))))))))"

text \<open>
  \<^verbatim>\<open>backupMutex\<close>: locking a held mutex blocks the caller, which for a single call is the
  result \<open>None\<close>. The deferred calls run in reverse order: first the closure that resumes
  the server when \<^verbatim>\<open>err\<close> is not nil, with a timeout of five minutes and its result dropped,
  then the unlock. (An earlier version of the file resumes with five seconds there.)
\<close>

definition Lock :: "world \<Rightarrow> world option" where
  "Lock w = (if backupMutex (server w) then None
             else Some (w\<lparr>server := (server w)\<lparr>backupMutex := True\<rparr>\<rparr>))"

definition Unlock :: "world \<Rightarrow> world" where
  "Unlock w = w\<lparr>server := (server w)\<lparr>backupMutex := False\<rparr>\<rparr>"

definition Backup :: "(string \<Rightarrow> regexp option) \<Rightarrow> world \<Rightarrow> BackupOptions \<Rightarrow> (error option \<times> world) option" where
  "Backup Compile w opts =
     (case defaultOptions opts of
        (opts, Some err) \<Rightarrow> Some (Some err, w)
      | (opts, None) \<Rightarrow>
          (case Lock w of
             None \<Rightarrow> None
           | Some w \<Rightarrow>
               (case Backup_steps Compile opts w of
                  None \<Rightarrow> None
                | Some (returned, err, w) \<Rightarrow>
                    if err \<noteq> None
                    then (case saveResume Compile w (5 * Minute) of
                            None \<Rightarrow> None
                          | Some (ignored, w) \<Rightarrow> Some (returned, Unlock w))
                    else Some (returned, Unlock w))))"

text \<open>\<^verbatim>\<open>DummyBackup\<close> prints each file and returns nil.\<close>

definition DummyBackup :: "File list \<Rightarrow> error option" where
  "DummyBackup files = None"

section \<open>What the specification calls a well-formed listing\<close>

text \<open>
  The second colon-separated field of an entry, written without \<open>Split\<close>: the text after
  the first colon, up to the next colon or the end.
\<close>

definition length_field :: "string \<Rightarrow> string" where
  "length_field e =
     takeWhile (\<lambda>x. x \<noteq> CHR '':'') (tl (dropWhile (\<lambda>x. x \<noteq> CHR '':'') e))"

text \<open>An integer, as text: an optional sign and then one or more decimal digits.\<close>

definition is_integer_text :: "string \<Rightarrow> bool" where
  "is_integer_text t =
     (let body = (if t \<noteq> [] \<and> (hd t = CHR ''+'' \<or> hd t = CHR ''-'') then tl t else t)
      in body \<noteq> [] \<and> list_all is_digit body)"

text \<open>A malformed entry has no colon, or its length field is not an integer.\<close>

definition malformed_entry :: "string \<Rightarrow> bool" where
  "malformed_entry e = (CHR '':'' \<notin> set e \<or> \<not> is_integer_text (length_field e))"

text \<open>
  The listing the specification describes, written out from a list of files: each entry
  is the name, a colon and the length in decimal (as \<^verbatim>\<open>strconv.FormatInt\<close> prints it), and
  the entries are joined with \<^verbatim>\<open>", "\<close>. A name of such a listing has no colon and does not
  contain the separator; a length fits a signed 64-bit integer.
\<close>

fun decimal_nat :: "nat \<Rightarrow> string" where
  "decimal_nat n =
     (if n < 10 then [char_of (48 + n)]
      else decimal_nat (n div 10) @ [char_of (48 + n mod 10)])"

declare decimal_nat.simps [simp del]

definition decimal :: "int \<Rightarrow> string" where
  "decimal l = (if l < 0 then CHR ''-'' # decimal_nat (nat (- l)) else decimal_nat (nat l))"

definition entry_text :: "File \<Rightarrow> string" where
  "entry_text f = Name f @ '':'' @ decimal (Length f)"

definition valid_name :: "string \<Rightarrow> bool" where
  "valid_name n = (CHR '':'' \<notin> set n \<and> \<not> Contains n '', '')"

definition valid_file :: "File \<Rightarrow> bool" where
  "valid_file f = (valid_name (Name f) \<and> - (2 ^ 63) \<le> Length f \<and> Length f < 2 ^ 63)"

text \<open>
  A reported name, element by element: an element is a file or directory name, not empty,
  without a slash, and neither \<^verbatim>\<open>.\<close> nor \<^verbatim>\<open>..\<close>. \<open>dir_of\<close> is the directory such elements
  spell.
\<close>

definition plain_component :: "string \<Rightarrow> bool" where
  "plain_component c = (c \<noteq> [] \<and> CHR ''/'' \<notin> set c \<and> c \<noteq> ''.'' \<and> c \<noteq> ''..'')"

definition dir_of :: "string list \<Rightarrow> string" where
  "dir_of dirs = (if dirs = [] then ''.'' else Join dirs ''/'')"

text \<open>
  The commands a call has issued are those it added to the queue of the console. The
  patterns of the three save commands are taken to compile, as they do in Go. A wait
  ends when the \<^verbatim>\<open>Done\<close> case of its context is among the cases it can take (every save command
  waits under a deadline); \<open>can_wait n\<close> says that the next waits all end and that at least
  \<open>n\<close> of them are described.
\<close>

definition commands :: "world \<Rightarrow> string list" where
  "commands w = inputQueue (console (server w))"

definition compiles :: "(string \<Rightarrow> regexp option) \<Rightarrow> bool" where
  "compiles Compile =
     (Compile hold_pattern \<noteq> None \<and> Compile query_pattern \<noteq> None
      \<and> Compile resume_pattern \<noteq> None)"



section \<open>Example runs\<close>

text \<open>
  What the examples below run on: a sink that fails, a stand-in for the regular
  expression engine that decides the three patterns of the package by the text they look
  for, a server as \<^verbatim>\<open>RunServer\<close> leaves it (channel 0 is the one it subscribes for the log),
  and what a wait can see: the acknowledgement of a hold, a listing, the acknowledgement
  of a resume, or nothing until the deadline.
\<close>

definition failingBackup :: "File list \<Rightarrow> error option" where
  "failingBackup files = Some (SinkError ''no space left on device'')"

definition line_begins :: "string \<Rightarrow> regexp" where
  "line_begins text output = list_ex (prefix text) (Split output ''\<newline>'')"

definition example_Compile :: "string \<Rightarrow> regexp option" where
  "example_Compile response =
     (if response = hold_pattern then Some (line_begins ''Saving...'')
      else if response = query_pattern
      then Some (\<lambda>output. case cut ''Data saved. Files are now ready to be copied'' output of
                           None \<Rightarrow> False
                         | Some (before, after) \<Rightarrow> Contains after ''levelname.txt'')
      else if response = resume_pattern then Some (line_begins ''Changes to the world are resumed'')
      else None)"

definition started :: "select_case list list \<Rightarrow> error option \<Rightarrow> world" where
  "started observed paused =
     \<lparr>server = \<lparr>console = \<lparr>subs = [0 \<mapsto> True], inputQueue = []\<rparr>, backupMutex = False\<rparr>,
      made = 1, waits = observed, pause = paused, timeouts = []\<rparr>"

definition saving :: "select_case list" where
  "saving = [Message ''Saving...'', Done DeadlineExceeded]"

definition listing :: "select_case list" where
  "listing =
     [Message ''Data saved. Files are now ready to be copied.'',
      Message ''world/db/CURRENT:16, world/level.dat:2049, world/levelname.txt:12'',
      Done DeadlineExceeded]"

definition resumed :: "select_case list" where
  "resumed = [Message ''Changes to the world are resumed'', Done DeadlineExceeded]"

definition silence :: "select_case list" where
  "silence = [Done DeadlineExceeded]"

section \<open>Facts about the library functions\<close>

lemma Split_not_Nil: "sep \<noteq> [] \<Longrightarrow> Split s sep \<noteq> []"
  by (subst Split.simps) (simp split: option.splits)

lemma cut_single:
  "cut [c] s =
     (if c \<in> set s
      then Some (takeWhile (\<lambda>x. x \<noteq> c) s, tl (dropWhile (\<lambda>x. x \<noteq> c) s))
      else None)"
  by (induction s) auto

lemma hd_Split_single: "hd (Split s [c]) = takeWhile (\<lambda>x. x \<noteq> c) s"
proof (cases "c \<in> set s")
  case True
  then show ?thesis by (subst Split.simps) (simp add: cut_single)
next
  case False
  have "Split s [c] = [s]"
    using False by (subst Split.simps) (simp add: cut_single)
  moreover have "takeWhile (\<lambda>x. x \<noteq> c) s = s"
    using False by auto
  ultimately show ?thesis by (simp only: list.sel)
qed

lemma Split_single_short: "(length (Split e [c]) < 2) = (c \<notin> set e)"
proof (cases "c \<in> set e")
  case True
  have "Split (tl (dropWhile (\<lambda>x. x \<noteq> c) e)) [c] \<noteq> []" by (simp add: Split_not_Nil)
  then have "0 < length (Split (tl (dropWhile (\<lambda>x. x \<noteq> c) e)) [c])" by simp
  with True show ?thesis by (subst Split.simps) (simp add: cut_single)
next
  case False
  then show ?thesis by (subst Split.simps) (simp add: cut_single)
qed

lemma Split_colon_second:
  assumes "CHR '':'' \<in> set e"
  shows "Split e '':'' ! 1 = length_field e"
proof -
  let ?a = "tl (dropWhile (\<lambda>x. x \<noteq> CHR '':'') e)"
  have ne: "Split ?a '':'' \<noteq> []" by (simp add: Split_not_Nil)
  have "Split e '':'' = takeWhile (\<lambda>x. x \<noteq> CHR '':'') e # Split ?a '':''"
    using assms by (subst Split.simps) (simp add: cut_single)
  then have "Split e '':'' ! 1 = hd (Split ?a '':'')"
    using ne by (simp add: hd_conv_nth)
  then show ?thesis by (simp add: hd_Split_single length_field_def)
qed

lemma parse_digits_Some: "parse_digits cs acc = Some n \<Longrightarrow> list_all is_digit cs"
  by (induction cs arbitrary: acc) (auto simp: digit_val_def split: if_splits)

lemma ParseInt_Some_text: "ParseInt t = Some n \<Longrightarrow> is_integer_text t"
  by (auto simp: ParseInt_def is_integer_text_def Let_def
      split: if_splits option.splits dest: parse_digits_Some)

lemma of_char_digit: "d < 10 \<Longrightarrow> (of_char (char_of (48 + d :: nat)) :: int) = 48 + int d"
proof -
  assume "d < 10"
  then have "(of_char (char_of (48 + d)) :: nat) = 48 + d" by simp
  then have "int (of_char (char_of (48 + d)) :: nat) = int (48 + d)" by (rule arg_cong)
  then show ?thesis by (simp only: of_nat_of_char of_nat_add of_nat_numeral)
qed

lemma is_digit_char_of: "d < 10 \<Longrightarrow> is_digit (char_of (48 + d :: nat))"
  by (simp add: is_digit_def of_char_digit)

lemma digit_val_char_of: "d < 10 \<Longrightarrow> digit_val (char_of (48 + d :: nat)) = Some (int d)"
  by (simp add: digit_val_def is_digit_char_of of_char_digit)

lemma parse_digits_append:
  "parse_digits (xs @ ys) acc =
     (case parse_digits xs acc of None \<Rightarrow> None | Some a \<Rightarrow> parse_digits ys a)"
  by (induction xs arbitrary: acc) (auto split: option.splits)

lemma parse_digits_decimal_nat: "parse_digits (decimal_nat n) 0 = Some (int n)"
proof (induction n rule: decimal_nat.induct)
  case (1 n)
  show ?case
  proof (cases "n < 10")
    case True
    then show ?thesis
      by (subst decimal_nat.simps) (simp add: digit_val_char_of)
  next
    case False
    have "n mod 10 < 10" by simp
    then have d: "digit_val (char_of (48 + n mod 10)) = Some (int (n mod 10))"
      by (rule digit_val_char_of)
    have "int (n div 10) * 10 + int (n mod 10) = int n"
      by (simp add: of_nat_mod of_nat_div)
    with False 1 d show ?thesis
      by (subst decimal_nat.simps) (simp add: parse_digits_append)
  qed
qed

lemma decimal_nat_digits: "list_all is_digit (decimal_nat n)"
proof (induction n rule: decimal_nat.induct)
  case (1 n)
  then show ?case
    by (subst decimal_nat.simps) (simp add: is_digit_char_of)
qed

lemma decimal_nat_not_Nil: "decimal_nat n \<noteq> []"
  by (subst decimal_nat.simps) simp

lemma is_digit_not_sign: "is_digit c \<Longrightarrow> c \<noteq> CHR ''+'' \<and> c \<noteq> CHR ''-'' \<and> c \<noteq> CHR '':'' \<and> c \<noteq> CHR '',''"
  by (auto simp: is_digit_def)

lemma hd_decimal_nat: "hd (decimal_nat n) \<noteq> CHR ''+'' \<and> hd (decimal_nat n) \<noteq> CHR ''-''"
proof -
  have "is_digit (hd (decimal_nat n))"
    using decimal_nat_digits [of n] decimal_nat_not_Nil [of n]
    by (cases "decimal_nat n") simp_all
  then show ?thesis by (simp add: is_digit_not_sign)
qed

lemma ParseInt_decimal:
  assumes "- (2 ^ 63) \<le> l" "l < 2 ^ 63"
  shows "ParseInt (decimal l) = Some l"
proof (cases "l < 0")
  case True
  with assms show ?thesis
    by (simp add: ParseInt_def decimal_def decimal_nat_not_Nil parse_digits_decimal_nat)
next
  case False
  with assms show ?thesis
    by (simp add: ParseInt_def decimal_def decimal_nat_not_Nil parse_digits_decimal_nat
        hd_decimal_nat)
qed


lemma cut_comma_plain:
  "CHR '','' \<notin> set e \<Longrightarrow> cut '', '' (e @ '', '' @ rest) = Some (e, rest)"
  by (induction e) auto

lemma cut_comma_plain_None:
  "CHR '','' \<notin> set e \<Longrightarrow> cut '', '' e = None"
  by (induction e) auto

lemma Contains_Cons: "\<not> Contains (c # cs) sep \<Longrightarrow> \<not> prefix sep (c # cs) \<and> \<not> Contains cs sep"
  by (auto simp: Contains_def split: option.splits if_splits)

lemma cut_comma_entry:
  assumes "\<not> Contains n '', ''" "CHR '','' \<notin> set d"
  shows "cut '', '' (n @ '':'' @ d @ '', '' @ rest) = Some (n @ '':'' @ d, rest)"
  using assms(1)
proof (induction n)
  case Nil
  have "cut '', '' (('':'' @ d) @ '', '' @ rest) = Some ('':'' @ d, rest)"
    using assms(2) by (intro cut_comma_plain) simp
  then show ?case by simp
next
  case (Cons c cs)
  from Contains_Cons [OF Cons.prems] have np: "\<not> prefix '', '' (c # cs)" and nc: "\<not> Contains cs '', ''"
    by simp_all
  have "\<not> prefix '', '' (c # cs @ '':'' @ d @ '', '' @ rest)"
    using np by (cases cs) auto
  with Cons.IH [OF nc] show ?case by simp
qed

lemma cut_comma_entry_None:
  assumes "\<not> Contains n '', ''" "CHR '','' \<notin> set d"
  shows "cut '', '' (n @ '':'' @ d) = None"
  using assms(1)
proof (induction n)
  case Nil
  have "cut '', '' ('':'' @ d) = None"
    using assms(2) by (intro cut_comma_plain_None) simp
  then show ?case by simp
next
  case (Cons c cs)
  from Contains_Cons [OF Cons.prems] have np: "\<not> prefix '', '' (c # cs)" and nc: "\<not> Contains cs '', ''"
    by simp_all
  have "\<not> prefix '', '' (c # cs @ '':'' @ d)"
    using np by (cases cs) auto
  with Cons.IH [OF nc] show ?case by simp
qed

lemma is_digit_plain: "is_digit c \<Longrightarrow> c \<noteq> CHR '','' \<and> c \<noteq> CHR '':''"
  by (auto simp: is_digit_def)

lemma digits_plain: "list_all is_digit cs \<Longrightarrow> CHR '','' \<notin> set cs \<and> CHR '':'' \<notin> set cs"
  by (induction cs) (auto dest: is_digit_plain)

lemma decimal_plain: "CHR '','' \<notin> set (decimal l) \<and> CHR '':'' \<notin> set (decimal l)"
  using digits_plain [OF decimal_nat_digits] by (simp add: decimal_def)

lemma takeWhile_until: "c \<notin> set n \<Longrightarrow> takeWhile (\<lambda>x. x \<noteq> c) (n @ c # d) = n"
  by (induction n) auto

lemma dropWhile_until: "c \<notin> set n \<Longrightarrow> dropWhile (\<lambda>x. x \<noteq> c) (n @ c # d) = c # d"
  by (induction n) auto

lemma Split_entry:
  assumes "CHR '':'' \<notin> set n" "CHR '':'' \<notin> set d"
  shows "Split (n @ CHR '':'' # d) '':'' = [n, d]"
proof -
  have d: "Split d '':'' = [d]"
    using assms(2) by (subst Split.simps) (simp add: cut_single)
  have "cut '':'' (n @ CHR '':'' # d) = Some (n, d)"
    using assms(1) by (simp add: cut_single takeWhile_until dropWhile_until)
  then show ?thesis
    by (subst Split.simps) (simp add: d)
qed

lemma File_eta: "\<lparr>Name = Name f, Length = Length f\<rparr> = (f :: File)"
  by (cases f) simp

lemma Split_entry_text:
  assumes "valid_file f"
  shows "Split (entry_text f) '':'' = [Name f, decimal (Length f)]"
  using assms decimal_plain [of "Length f"]
  by (simp add: entry_text_def valid_file_def valid_name_def Split_entry)

lemma parse_entries_listing:
  assumes "\<forall>f \<in> set fs. valid_file f" "length pre = i" "length rest = length fs"
  shows "parse_entries (map entry_text fs) i (pre @ rest) = (pre @ fs, None)"
  using assms
proof (induction fs arbitrary: i pre rest)
  case Nil
  then show ?case by simp
next
  case (Cons f fs)
  from Cons.prems(3) obtain r rs where rest: "rest = r # rs" and rs: "length rs = length fs"
    by (cases rest) auto
  from Cons.prems(1) have vf: "valid_file f" and vfs: "\<forall>f \<in> set fs. valid_file f"
    by simp_all
  from vf have p: "ParseInt (decimal (Length f)) = Some (Length f)"
    by (simp add: valid_file_def ParseInt_decimal)
  have upd: "(pre @ r # rs)[i := \<lparr>Name = Name f, Length = Length f\<rparr>] = (pre @ [f]) @ rs"
    using Cons.prems(2) [symmetric] by (simp add: File_eta)
  have "parse_entries (map entry_text fs) (i + 1) ((pre @ [f]) @ rs) = ((pre @ [f]) @ fs, None)"
    using vfs Cons.prems(2) rs by (intro Cons.IH) simp_all
  with upd show ?case
    by (simp add: Split_entry_text [OF vf] p rest)
qed

lemma Split_single_entry:
  assumes "valid_file f"
  shows "Split (entry_text f) '', '' = [entry_text f]"
proof -
  have "cut '', '' (Name f @ '':'' @ decimal (Length f)) = None"
    using assms decimal_plain [of "Length f"]
    by (intro cut_comma_entry_None) (simp_all add: valid_file_def valid_name_def)
  then show ?thesis
    by (subst Split.simps) (simp add: entry_text_def)
qed

lemma Split_listing:
  assumes "fs \<noteq> []" "\<forall>f \<in> set fs. valid_file f"
  shows "Split (Join (map entry_text fs) '', '') '', '' = map entry_text fs"
  using assms
proof (induction fs rule: list_nonempty_induct)
  case (single f)
  then show ?case by (simp add: Split_single_entry)
next
  case (cons f fs)
  from cons.prems have vf: "valid_file f" and vfs: "\<forall>f \<in> set fs. valid_file f"
    by simp_all
  from cons.hyps obtain g gs where fs: "fs = g # gs" by (cases fs) auto
  let ?rest = "Join (map entry_text fs) '', ''"
  have j: "Join (map entry_text (f # fs)) '', '' = entry_text f @ '', '' @ ?rest"
    by (simp add: fs)
  have "cut '', '' (Name f @ '':'' @ decimal (Length f) @ '', '' @ ?rest)
      = Some (Name f @ '':'' @ decimal (Length f), ?rest)"
    using vf decimal_plain [of "Length f"]
    by (intro cut_comma_entry) (simp_all add: valid_file_def valid_name_def)
  then have c: "cut '', '' (entry_text f @ '', '' @ ?rest) = Some (entry_text f, ?rest)"
    by (simp add: entry_text_def)
  have "Split (entry_text f @ '', '' @ ?rest) '', '' = entry_text f # Split ?rest '', ''"
    by (subst Split.simps) (simp only: c option.case prod.case list.simps if_False)
  then have "Split (Join (map entry_text (f # fs)) '', '') '', ''
      = entry_text f # Split ?rest '', ''"
    by (simp only: j)
  with cons.IH [OF vfs] show ?case by simp
qed

section \<open>The parser returns the listing of a valid response\<close>

text \<open>
  Claim C5. A valid response has a line containing \<^verbatim>\<open>levelname.txt\<close> and, as its last line,
  the listing of the files \<open>fs\<close> in the form \<^verbatim>\<open>a:10, b:20, c:30\<close>. For every such response
  \<^verbatim>\<open>parseSaveQuery\<close> returns exactly \<open>fs\<close>, in the order of the listing, and no error.
\<close>

theorem parseSaveQuery_listing:
  assumes "fs \<noteq> []" "\<forall>f \<in> set fs. valid_file f"
    and "\<exists>line \<in> set (Split response ''\<newline>''). Contains line ''levelname.txt''"
    and "last (Split response ''\<newline>'') = Join (map entry_text fs) '', ''"
  shows "parseSaveQuery response = (fs, None)"
proof -
  let ?lines = "Split response ''\<newline>''"
  have ne: "?lines \<noteq> []" by (simp add: Split_not_Nil)
  then have last: "?lines ! (length ?lines - Suc 0) = last ?lines" by (simp add: last_conv_nth)
  from assms(3) obtain l where l: "find (\<lambda>line. Contains line ''levelname.txt'') ?lines = Some l"
    by (cases "find (\<lambda>line. Contains line ''levelname.txt'') ?lines") (auto simp: find_None_iff)
  then have "Contains l ''levelname.txt''" by (auto simp: find_Some_iff)
  then have lne: "l \<noteq> []" by (auto simp: Contains_def)
  have "parse_entries (map entry_text fs) 0
          ([] @ replicate (length (map entry_text fs)) \<lparr>Name = [], Length = 0\<rparr>) = ([] @ fs, None)"
    using assms(2) by (intro parse_entries_listing) simp_all
  with ne l lne show ?thesis
    by (simp add: parseSaveQuery_def Let_def last assms(4) Split_listing [OF assms(1,2)])
qed

theorem parseSaveQuery_listing_witness:
  "parseSaveQuery ''Data saved. Files are now ready to be copied: levelname.txt\<newline>a:10, b:20, c:30''
     = ([\<lparr>Name = ''a'', Length = 10\<rparr>, \<lparr>Name = ''b'', Length = 20\<rparr>,
         \<lparr>Name = ''c'', Length = 30\<rparr>], None)"
proof -
  let ?r = "''Data saved. Files are now ready to be copied: levelname.txt\<newline>a:10, b:20, c:30''"
  let ?fs = "[\<lparr>Name = ''a'', Length = 10\<rparr>, \<lparr>Name = ''b'', Length = 20\<rparr>,
              \<lparr>Name = ''c'', Length = 30\<rparr>]"
  have 1: "?fs \<noteq> []" by simp
  have 2: "\<forall>f \<in> set ?fs. valid_file f" by code_simp
  have 3: "\<exists>line \<in> set (Split ?r ''\<newline>''). Contains line ''levelname.txt''" by code_simp
  have 4: "last (Split ?r ''\<newline>'') = Join (map entry_text ?fs) '', ''" by code_simp
  from parseSaveQuery_listing [OF 1 2 3 4] show ?thesis .
qed

section \<open>The parser rejects what is not a listing\<close>

lemma parse_entries_malformed:
  "\<exists>e \<in> set es. malformed_entry e \<Longrightarrow> snd (parse_entries es i files) \<noteq> None"
proof (induction es arbitrary: i files)
  case Nil
  then show ?case by simp
next
  case (Cons e es)
  show ?case
  proof (cases "malformed_entry e")
    case True
    show ?thesis
    proof (cases "CHR '':'' \<in> set e")
      case False
      then have "length (Split e '':'') < 2" by (simp add: Split_single_short)
      then show ?thesis by simp
    next
      case c: True
      with True have "\<not> is_integer_text (Split e '':'' ! 1)"
        using Split_colon_second [OF c] by (simp add: malformed_entry_def)
      then have "ParseInt (Split e '':'' ! 1) = None"
        using ParseInt_Some_text by (cases "ParseInt (Split e '':'' ! 1)") auto
      then show ?thesis by (simp add: Let_def)
    qed
  next
    case False
    with Cons.prems have "\<exists>e \<in> set es. malformed_entry e" by simp
    from Cons.IH [OF this] show ?thesis
      by (simp add: Let_def split: option.splits)
  qed
qed

lemma parse_entries_not_lines: "snd (parse_entries es i files) \<noteq> Some NotEnoughLines"
  by (induction es arbitrary: i files) (auto simp: Let_def split: option.splits)

text \<open>
  Claim C6. \<^verbatim>\<open>parseSaveQuery\<close> returns an error whenever no line of the response
  contains \<^verbatim>\<open>levelname.txt\<close>, and whenever some entry of the last line (the entries are
  what \<^verbatim>\<open>", "\<close> separates) has no colon or has a length field that is not an integer.
  A listing with such an entry is never returned with a \<^verbatim>\<open>nil\<close> error.
\<close>

theorem parseSaveQuery_rejects:
  assumes "(\<forall>line \<in> set (Split response ''\<newline>''). \<not> Contains line ''levelname.txt'')
     \<or> (\<exists>e \<in> set (Split (last (Split response ''\<newline>'')) '', ''). malformed_entry e)"
  shows "snd (parseSaveQuery response) \<noteq> None"
proof -
  let ?lines = "Split response ''\<newline>''"
  have ne: "?lines \<noteq> []" by (simp add: Split_not_Nil)
  then have last: "?lines ! (length ?lines - Suc 0) = last ?lines" by (simp add: last_conv_nth)
  from assms show ?thesis
  proof
    assume "\<forall>line \<in> set ?lines. \<not> Contains line ''levelname.txt''"
    then have "find (\<lambda>line. Contains line ''levelname.txt'') ?lines = None"
      by (simp add: find_None_iff)
    then show ?thesis by (simp add: parseSaveQuery_def Let_def)
  next
    assume "\<exists>e \<in> set (Split (last ?lines) '', ''). malformed_entry e"
    from parse_entries_malformed [OF this] ne show ?thesis
      by (simp add: parseSaveQuery_def Let_def last)
  qed
qed

text \<open>
  The two responses of the specification: one without the marker, and one whose listing
  holds the entry \<^verbatim>\<open>x:notanumber\<close>.
\<close>

theorem parseSaveQuery_rejects_witness:
  "snd (parseSaveQuery ''Data saved.\<newline>a:10, b:20'') \<noteq> None
   \<and> malformed_entry ''x:notanumber''
   \<and> snd (parseSaveQuery ''levelname.txt\<newline>a:10, x:notanumber'') \<noteq> None"
proof -
  have h1: "(\<forall>line \<in> set (Split ''Data saved.\<newline>a:10, b:20'' ''\<newline>'').
               \<not> Contains line ''levelname.txt'')
     \<or> (\<exists>e \<in> set (Split (last (Split ''Data saved.\<newline>a:10, b:20'' ''\<newline>'')) '', '').
           malformed_entry e)"
    by code_simp
  have m: "malformed_entry ''x:notanumber''"
    by code_simp
  have h2: "(\<forall>line \<in> set (Split ''levelname.txt\<newline>a:10, x:notanumber'' ''\<newline>'').
               \<not> Contains line ''levelname.txt'')
     \<or> (\<exists>e \<in> set (Split (last (Split ''levelname.txt\<newline>a:10, x:notanumber'' ''\<newline>''))
             '', ''). malformed_entry e)"
    by code_simp
  from parseSaveQuery_rejects [OF h1] m parseSaveQuery_rejects [OF h2] show ?thesis
    by blast
qed

text \<open>
  Claim C10. Splitting any string on the newline gives at least one element, so the
  length test at the head of \<^verbatim>\<open>parseSaveQuery\<close> never holds and the error "not enough
  lines in response" is never returned.
\<close>

theorem parseSaveQuery_lines_error_unreachable:
  "1 \<le> length (Split response ''\<newline>'')
   \<and> snd (parseSaveQuery response) \<noteq> Some NotEnoughLines"
proof -
  have ne: "Split response ''\<newline>'' \<noteq> []" by (simp add: Split_not_Nil)
  then have "1 \<le> length (Split response ''\<newline>'')"
    by (cases "Split response ''\<newline>''") simp_all
  with ne show ?thesis
    by (simp add: parseSaveQuery_def Let_def parse_entries_not_lines)
qed

theorem parseSaveQuery_lines_error_unreachable_witness:
  "1 \<le> length (Split [] ''\<newline>'') \<and> snd (parseSaveQuery []) \<noteq> Some NotEnoughLines"
  by (rule parseSaveQuery_lines_error_unreachable)

section \<open>Path resolution with the static list\<close>

lemma Join_Cons: "cs \<noteq> [] \<Longrightarrow> Join (c # cs) sep = c @ sep @ Join cs sep"
  by (cases cs) simp_all

lemma Join_snoc: "cs \<noteq> [] \<Longrightarrow> Join (cs @ [c]) sep = Join cs sep @ sep @ c"
  by (induction cs rule: list_nonempty_induct) (simp_all add: Join_Cons)

lemma Split_Join_single:
  assumes "cs \<noteq> []" "\<forall>c \<in> set cs. sep \<notin> set c"
  shows "Split (Join cs [sep]) [sep] = cs"
  using assms
proof (induction cs rule: list_nonempty_induct)
  case (single c)
  then show ?case by (subst Split.simps) (simp add: cut_single)
next
  case (cons c cs)
  from cons.prems have c: "sep \<notin> set c" and cs: "\<forall>c \<in> set cs. sep \<notin> set c"
    by simp_all
  have "cut [sep] (c @ sep # Join cs [sep]) = Some (c, Join cs [sep])"
    using c by (simp add: cut_single takeWhile_until dropWhile_until)
  then have "Split (c @ sep # Join cs [sep]) [sep] = c # Split (Join cs [sep]) [sep]"
    by (subst Split.simps) simp
  with cons.IH [OF cs] cons.hyps show ?case by (simp add: Join_Cons)
qed

lemma foldl_clean_step:
  "''..'' \<notin> set k \<Longrightarrow> foldl (clean_step rooted) out k = out @ k"
  by (induction k arbitrary: out) (auto simp: clean_step_def)

lemma hd_Join:
  assumes "cs \<noteq> []" "hd cs \<noteq> []"
  shows "Join cs sep \<noteq> [] \<and> hd (Join cs sep) = hd (hd cs)"
proof (cases cs)
  case Nil
  with assms show ?thesis by simp
next
  case (Cons c cs')
  with assms show ?thesis by (cases cs') auto
qed

lemma Join_eq_Nil:
  assumes "\<forall>c \<in> set k. c \<noteq> []"
  shows "(Join k sep = []) = (k = [])"
proof (cases k)
  case Nil
  then show ?thesis by simp
next
  case (Cons c k')
  with assms show ?thesis by (cases k') auto
qed

text \<open>Cleaning a relative path without \<open>..\<close> keeps its elements other than the empty one and the dot.\<close>

lemma Clean_relative:
  assumes "cs \<noteq> []" "hd cs \<noteq> []" "\<forall>c \<in> set cs. CHR ''/'' \<notin> set c" "''..'' \<notin> set cs"
  shows "Clean (Join cs ''/'') =
     (let k = filter (\<lambda>c. c \<noteq> [] \<and> c \<noteq> ''.'') cs in if k = [] then ''.'' else Join k ''/'')"
proof -
  let ?k = "filter (\<lambda>c. c \<noteq> [] \<and> c \<noteq> ''.'') cs"
  from hd_Join [OF assms(1,2)] have ne: "Join cs ''/'' \<noteq> []"
    and hd: "hd (Join cs ''/'') = hd (hd cs)" by simp_all
  from assms(1,2,3) have "hd (hd cs) \<noteq> CHR ''/''"
    by (cases cs; cases "hd cs") auto
  with hd have nr: "hd (Join cs ''/'') \<noteq> CHR ''/''" by simp
  have sp: "Split (Join cs ''/'') ''/'' = cs"
    using assms(1,3) by (rule Split_Join_single)
  have "''..'' \<notin> set ?k" using assms(4) by simp
  then have f: "foldl (clean_step False) [] ?k = ?k"
    by (simp add: foldl_clean_step)
  have "(Join ?k ''/'' = []) = (?k = [])"
    by (rule Join_eq_Nil) simp
  with ne nr sp f show ?thesis
    by (simp add: Clean_def Let_def)
qed

lemma Base_append:
  assumes "b \<noteq> []" "CHR ''/'' \<notin> set b" "pre = [] \<or> last pre = CHR ''/''"
  shows "Base (pre @ b) = b"
proof -
  from assms(1) obtain x xs where r: "rev b = x # xs" by (cases "rev b") auto
  then have "x \<in> set b" by (metis list.set_intros(1) set_rev)
  with assms(2) have x: "x \<noteq> CHR ''/''" by auto
  have strip: "dropWhile (\<lambda>c. c = CHR ''/'') (rev (pre @ b)) = rev (pre @ b)"
    using r x by simp
  have "takeWhile (\<lambda>c. c \<noteq> CHR ''/'') (rev b @ rev pre) = rev b"
  proof (cases "pre = []")
    case True
    with assms(2) show ?thesis by auto
  next
    case False
    with assms(3) obtain p where "pre = p @ ''/''"
      by (metis append_butlast_last_id)
    with assms(2) show ?thesis by (simp add: takeWhile_until)
  qed
  with strip assms(1) show ?thesis by (simp add: Base_def Let_def)
qed

lemma Dir_append:
  assumes "CHR ''/'' \<notin> set b" "pre = [] \<or> last pre = CHR ''/''"
  shows "Dir (pre @ b) = Clean pre"
proof -
  have "dropWhile (\<lambda>c. c \<noteq> CHR ''/'') (rev b @ rev pre) = rev pre"
  proof (cases "pre = []")
    case True
    with assms(1) show ?thesis by auto
  next
    case False
    with assms(2) obtain p where "pre = p @ ''/''"
      by (metis append_butlast_last_id)
    with assms(1) show ?thesis by (simp add: dropWhile_until)
  qed
  then show ?thesis by (simp add: Dir_def)
qed

lemma plain_no_dotdot: "\<forall>c \<in> set cs. plain_component c \<Longrightarrow> ''..'' \<notin> set cs"
  by (auto simp: plain_component_def)

lemma filter_plain:
  "\<forall>c \<in> set cs. plain_component c \<Longrightarrow> filter (\<lambda>c. c \<noteq> [] \<and> c \<noteq> ''.'') cs = cs"
  by (induction cs) (auto simp: plain_component_def)

lemma Clean_plain:
  assumes "cs \<noteq> []" "\<forall>c \<in> set cs. plain_component c"
  shows "Clean (Join cs ''/'') = Join cs ''/''"
proof -
  from assms have 1: "hd cs \<noteq> []" by (cases cs) (auto simp: plain_component_def)
  from assms(2) have 2: "\<forall>c \<in> set cs. CHR ''/'' \<notin> set c"
    by (auto simp: plain_component_def)
  from Clean_relative [OF assms(1) 1 2 plain_no_dotdot [OF assms(2)]]
  show ?thesis
    by (simp only: filter_plain [OF assms(2)] Let_def assms(1) if_False)
qed

lemma Dir_plain:
  assumes "\<forall>c \<in> set dirs. plain_component c" "plain_component base"
  shows "Dir (Join (dirs @ [base]) ''/'') = dir_of dirs"
proof (cases "dirs = []")
  case True
  have "Dir ([] @ base) = Clean []"
    using assms(2) by (intro Dir_append) (simp_all add: plain_component_def)
  with True show ?thesis by (simp add: dir_of_def Clean_def)
next
  case False
  have j: "Join (dirs @ [[]]) ''/'' = Join dirs ''/'' @ ''/''"
    using False by (simp add: Join_snoc)
  have n: "Join (dirs @ [base]) ''/'' = (Join dirs ''/'' @ ''/'') @ base"
    using False by (simp add: Join_snoc)
  have c: "Clean (Join (dirs @ [[]]) ''/'') = Join dirs ''/''"
  proof -
    have 0: "dirs @ [[]] \<noteq> []" by simp
    have 1: "hd (dirs @ [[]]) \<noteq> []"
      using False assms(1) by (cases dirs) (auto simp: plain_component_def)
    have 2: "\<forall>c \<in> set (dirs @ [[]]). CHR ''/'' \<notin> set c"
      using assms(1) by (auto simp: plain_component_def)
    have 3: "''..'' \<notin> set (dirs @ [[]])"
      using plain_no_dotdot [OF assms(1)] by simp
    have 4: "filter (\<lambda>c. c \<noteq> [] \<and> c \<noteq> ''.'') (dirs @ [[]]) = dirs"
      using filter_plain [OF assms(1)] by simp
    from Clean_relative [OF 0 1 2 3] show ?thesis
      by (simp only: 4 Let_def False if_False)
  qed
  have "Dir ((Join dirs ''/'' @ ''/'') @ base) = Clean (Join dirs ''/'' @ ''/'')"
    using assms(2) by (intro Dir_append) (simp_all add: plain_component_def)
  then have "Dir (Join (dirs @ [base]) ''/'') = Clean (Join (dirs @ [[]]) ''/'')"
    by (simp only: n j)
  with c False show ?thesis by (simp only: dir_of_def if_False)
qed

lemma filepath_Join_dir_of:
  assumes "\<forall>c \<in> set dirs. plain_component c" "plain_component b"
  shows "filepath_Join [dir_of dirs, b] = Join (dirs @ [b]) ''/''"
proof (cases "dirs = []")
  case True
  have "Clean (Join [''.'', b] ''/'') = b"
    using assms(2) by (subst Clean_relative) (auto simp: plain_component_def Let_def)
  with True show ?thesis by (simp add: filepath_Join_def dir_of_def)
next
  case False
  then have ne: "Join dirs ''/'' \<noteq> []"
    using assms(1) hd_Join [of dirs "''/''"] by (cases dirs) (auto simp: plain_component_def)
  have "Clean (Join (dirs @ [b]) ''/'') = Join (dirs @ [b]) ''/''"
    using assms by (intro Clean_plain) auto
  with False ne show ?thesis
    by (simp add: filepath_Join_def dir_of_def Join_snoc)
qed

text \<open>
  Claim C7. With the static list, a file whose base name is \<^verbatim>\<open>level.dat\<close>, \<^verbatim>\<open>level.dat_old\<close> or
  \<^verbatim>\<open>levelname.txt\<close> resolves to its reported path, unchanged, and every other file resolves
  to the path with \<^verbatim>\<open>db\<close> inserted between its directory and its base name. The reported
  name is given by its elements, as the server reports it: \<open>dirs\<close> for the directory and
  \<open>base\<close> for the file.
\<close>

theorem realFilePath_static:
  assumes "\<forall>c \<in> set dirs. plain_component c" "plain_component base"
  shows "Base (Join (dirs @ [base]) ''/'') = base
    \<and> realFilePath \<lparr>Name = Join (dirs @ [base]) ''/'', Length = n\<rparr> =
        (if base \<in> set nonDBFiles then Join (dirs @ [base]) ''/''
         else Join (dirs @ [''db'', base]) ''/'')"
proof -
  let ?name = "Join (dirs @ [base]) ''/''"
  have b: "Base ?name = base"
  proof (cases "dirs = []")
    case True
    have "Base ([] @ base) = base"
      using assms(2) by (intro Base_append) (simp_all add: plain_component_def)
    with True show ?thesis by simp
  next
    case False
    have "Base ((Join dirs ''/'' @ ''/'') @ base) = base"
      using assms(2) by (intro Base_append) (simp_all add: plain_component_def)
    with False show ?thesis by (simp add: Join_snoc)
  qed
  have d: "Dir ?name = dir_of dirs" using assms by (rule Dir_plain)
  have db: "plain_component ''db''" by (simp add: plain_component_def)
  have 1: "filepath_Join [dir_of dirs, base] = ?name"
    using assms by (rule filepath_Join_dir_of)
  have 2: "filepath_Join [dir_of dirs, ''db''] = Join (dirs @ [''db'']) ''/''"
    using assms(1) db by (rule filepath_Join_dir_of)
  have ne: "dirs @ [''db''] \<noteq> []" by simp
  have 3: "filepath_Join [dir_of (dirs @ [''db'']), base] = Join ((dirs @ [''db'']) @ [base]) ''/''"
    using assms db by (intro filepath_Join_dir_of) auto
  have 4: "dir_of (dirs @ [''db'']) = Join (dirs @ [''db'']) ''/''"
    by (simp add: dir_of_def)
  show ?thesis
    using b d 1 2 3 4 by (simp add: realFilePath_def Let_def list_ex_iff)
qed

theorem realFilePath_static_witness:
  "realFilePath \<lparr>Name = ''world/level.dat'', Length = 2049\<rparr> = ''world/level.dat''
   \<and> realFilePath \<lparr>Name = ''world/levelname.txt'', Length = 12\<rparr> = ''world/levelname.txt''
   \<and> realFilePath \<lparr>Name = ''world/CURRENT'', Length = 16\<rparr> = ''world/db/CURRENT''"
proof -
  have d: "\<forall>c \<in> set [''world'']. plain_component c" by code_simp
  have 1: "plain_component ''level.dat''" by code_simp
  have 2: "plain_component ''levelname.txt''" by code_simp
  have 3: "plain_component ''CURRENT''" by code_simp
  from realFilePath_static [OF d 1, of 2049] realFilePath_static [OF d 2, of 12] realFilePath_static [OF d 3, of 16]
  show ?thesis by (simp add: nonDBFiles_def)
qed


section \<open>What a command leaves behind\<close>

lemma SendRawCommandWaitResponse_effect:
  assumes "Compile response \<noteq> None"
    and "SendRawCommandWaitResponse Compile c w rawCommand response = Some (r, w')"
  shows "commands w' = commands w @ [rawCommand] \<and> timeouts w' = timeouts w
    \<and> waits w' = waits w \<and> pause w' = pause w
    \<and> backupMutex (server w') = backupMutex (server w)"
  using assms
  by (auto simp: SendRawCommandWaitResponse_def commands_def Let_def SendRawCommand_def
      Subscribe_def Unsubscribe_def split: option.splits)

lemma saveHold_effect:
  assumes "compiles Compile" and "saveHold Compile w t = Some (e, w')"
  shows "commands w' = commands w @ [''save hold'']
    \<and> timeouts w' = timeouts w @ [(''save hold'', t)]
    \<and> waits w' = tl (waits w) \<and> pause w' = pause w
    \<and> backupMutex (server w') = backupMutex (server w)"
proof -
  let ?c = "fst (WithTimeout w ''save hold'' t)" and ?w = "snd (WithTimeout w ''save hold'' t)"
  from assms(2) obtain out where
    "SendRawCommandWaitResponse Compile ?c ?w ''save hold'' hold_pattern = Some ((out, e), w')"
    by (auto simp: saveHold_def split_beta split: option.splits)
  from SendRawCommandWaitResponse_effect [OF _ this] assms(1) show ?thesis
    by (simp add: compiles_def WithTimeout_def commands_def)
qed

lemma saveResume_effect:
  assumes "compiles Compile" and "saveResume Compile w t = Some (e, w')"
  shows "commands w' = commands w @ [''save resume'']
    \<and> timeouts w' = timeouts w @ [(''save resume'', t)]
    \<and> waits w' = tl (waits w) \<and> pause w' = pause w
    \<and> backupMutex (server w') = backupMutex (server w)"
proof -
  let ?c = "fst (WithTimeout w ''save resume'' t)" and ?w = "snd (WithTimeout w ''save resume'' t)"
  from assms(2) obtain out where
    "SendRawCommandWaitResponse Compile ?c ?w ''save resume'' resume_pattern = Some ((out, e), w')"
    by (auto simp: saveResume_def split_beta split: option.splits)
  from SendRawCommandWaitResponse_effect [OF _ this] assms(1) show ?thesis
    by (simp add: compiles_def WithTimeout_def commands_def)
qed

lemma saveQuery_effect:
  assumes "compiles Compile" and "saveQuery Compile w t = Some (r, w')"
  shows "commands w' = commands w @ [''save query'']
    \<and> timeouts w' = timeouts w @ [(''save query'', t)]
    \<and> waits w' = tl (waits w) \<and> pause w' = pause w
    \<and> backupMutex (server w') = backupMutex (server w)"
proof -
  let ?c = "fst (WithTimeout w ''save query'' t)" and ?w = "snd (WithTimeout w ''save query'' t)"
  from assms(2) have
    "SendRawCommandWaitResponse Compile ?c ?w ''save query'' query_pattern = Some (r, w')"
    by (auto simp: saveQuery_def split_beta split: option.splits)
  from SendRawCommandWaitResponse_effect [OF _ this] assms(1) show ?thesis
    by (simp add: compiles_def WithTimeout_def commands_def)
qed

lemma query_retry_effect:
  assumes "compiles Compile"
    and "query_retry Compile t n res w = Some ((out, err), w')"
  shows "\<exists>k \<le> n. commands w' = commands w @ replicate k ''save query''
    \<and> timeouts w' = timeouts w @ replicate k (''save query'', t)
    \<and> pause w' = pause w \<and> backupMutex (server w') = backupMutex (server w)
    \<and> (0 < n \<longrightarrow> 0 < k) \<and> (err \<noteq> None \<longrightarrow> k = n)"
  using assms(2)
proof (induction n arbitrary: res w)
  case 0
  then show ?case by simp
next
  case (Suc n)
  from Suc.prems obtain o1 e1 w1 where q: "saveQuery Compile w t = Some ((o1, e1), w1)"
    by (auto split: option.splits)
  note eff = saveQuery_effect [OF assms(1) q]
  show ?case
  proof (cases "e1 = None")
    case True
    with Suc.prems q have "out = o1" "err = None" "w' = w1" by simp_all
    with eff show ?thesis by - (rule exI [of _ 1], simp)
  next
    case False
    with Suc.prems q have "query_retry Compile t n (o1, e1) w1 = Some ((out, err), w')"
      by simp
    from Suc.IH [OF this] obtain k where k: "k \<le> n"
      "commands w' = commands w1 @ replicate k ''save query''"
      "timeouts w' = timeouts w1 @ replicate k (''save query'', t)"
      "pause w' = pause w1" "backupMutex (server w') = backupMutex (server w1)"
      "0 < n \<longrightarrow> 0 < k" "err \<noteq> None \<longrightarrow> k = n"
      by blast
    with eff show ?thesis
      by - (rule exI [of _ "Suc k"], simp add: replicate_app_Cons_same)
  qed
qed

lemma Backup_steps_shape:
  assumes c: "compiles Compile"
    and s: "Backup_steps Compile b w = Some (returned, err, w')"
  shows "\<exists>k r. k \<le> 3 \<and> r \<le> 1
    \<and> commands w' = commands w
          @ ''save hold'' # replicate k ''save query'' @ replicate r ''save resume''
    \<and> timeouts w' = timeouts w
          @ (''save hold'', CommandTimeout b) # replicate k (''save query'', CommandTimeout b)
          @ replicate r (''save resume'', CommandTimeout b)
    \<and> backupMutex (server w') = backupMutex (server w)
    \<and> (err \<noteq> None \<longrightarrow> returned = err)
    \<and> (pause w = None \<longrightarrow> returned = err)
    \<and> (returned = None \<longrightarrow> err = None \<and> 1 \<le> k \<and> r = 1)"
proof -
  let ?T = "CommandTimeout b"
  from s obtain e1 w1 where h: "saveHold Compile w ?T = Some (e1, w1)"
    by (auto simp: Backup_steps_def split: option.splits)
  note he = saveHold_effect [OF c h]
  show ?thesis
  proof (cases "e1 \<noteq> None \<or> pause w1 \<noteq> None")
    case True
    have "w' = w1 \<and> returned \<noteq> None \<and> (err \<noteq> None \<longrightarrow> returned = err)
        \<and> (pause w1 = None \<longrightarrow> returned = err)"
    proof (cases e1)
      case (Some e)
      with s h show ?thesis by (auto simp: Backup_steps_def)
    next
      case None
      with True obtain ce where pc: "pause w1 = Some ce" by auto
      with s h None have "Some (Some ce, None :: error option, w1) = Some (returned, err, w')"
        by (simp add: Backup_steps_def)
      then have "returned = Some ce" "err = None" "w' = w1" by simp_all
      with pc show ?thesis by simp
    qed
    with he show ?thesis
      by - (rule exI [of _ 0], simp)
  next
    case False
    then have e1: "e1 = None" and p: "pause w1 = None" by simp_all
    from s h e1 p obtain out e2 w2 where
      q: "query_retry Compile ?T 3 ([], None) w1 = Some ((out, e2), w2)"
      by (auto simp: Backup_steps_def split: option.splits)
    from query_retry_effect [OF c q] obtain k where k: "k \<le> 3"
      "commands w2 = commands w1 @ replicate k ''save query''"
      "timeouts w2 = timeouts w1 @ replicate k (''save query'', ?T)"
      "backupMutex (server w2) = backupMutex (server w1)" "0 < k"
      by auto
    show ?thesis
    proof (cases "\<exists>e3 w3. saveResume Compile w2 ?T = Some (e3, w3) \<and> returned = e3 \<and> err = e3 \<and> w' = w3")
      case True
      then obtain e3 where r: "saveResume Compile w2 ?T = Some (e3, w')" "returned = e3" "err = e3"
        by blast
      note re = saveResume_effect [OF c r(1)]
      from he k re r(2,3) show ?thesis
        by - (rule exI [of _ k], rule exI [of _ 1], simp)
    next
      case False
      with s h e1 p q have "w' = w2" "returned \<noteq> None" "returned = err"
        by (auto simp: Backup_steps_def split: option.splits prod.splits if_splits) metis+
      with he k show ?thesis
        by - (rule exI [of _ k], rule exI [of _ 0], simp)
    qed
  qed
qed

lemma Lock_effect:
  assumes "Lock w = Some w0"
  shows "commands w0 = commands w \<and> timeouts w0 = timeouts w \<and> waits w0 = waits w
    \<and> pause w0 = pause w \<and> \<not> backupMutex (server w)"
  using assms by (auto simp: Lock_def commands_def split: if_splits)

lemma Unlock_effect:
  "commands (Unlock w) = commands w \<and> timeouts (Unlock w) = timeouts w
    \<and> \<not> backupMutex (server (Unlock w))"
  by (simp add: Unlock_def commands_def)

lemma Backup_shape:
  assumes c: "compiles Compile"
    and d: "defaultOptions opts = (b, None)"
    and r: "Backup Compile w opts = Some (returned, w')"
  shows "\<exists>k r d. k \<le> 3 \<and> r \<le> 1 \<and> d \<le> 1
    \<and> commands w' = commands w
          @ ''save hold'' # replicate k ''save query'' @ replicate (r + d) ''save resume''
    \<and> timeouts w' = timeouts w
          @ (''save hold'', CommandTimeout b) # replicate k (''save query'', CommandTimeout b)
          @ replicate r (''save resume'', CommandTimeout b)
          @ replicate d (''save resume'', 5 * Minute)
    \<and> (returned = None \<longrightarrow> 1 \<le> k \<and> r = 1 \<and> d = 0)
    \<and> (d = 1 \<longrightarrow> returned \<noteq> None)
    \<and> (returned \<noteq> None \<and> pause w = None \<longrightarrow> d = 1)"
proof -
  from r d obtain w0 where l: "Lock w = Some w0"
    by (auto simp: Backup_def split: option.splits)
  note le = Lock_effect [OF l]
  from r d l obtain err w1 where s: "Backup_steps Compile b w0 = Some (returned, err, w1)"
    by (auto simp: Backup_def split: option.splits if_splits)
  from Backup_steps_shape [OF c s] obtain k n where kn: "k \<le> 3" "n \<le> 1"
    "commands w1 = commands w0
       @ ''save hold'' # replicate k ''save query'' @ replicate n ''save resume''"
    "timeouts w1 = timeouts w0
       @ (''save hold'', CommandTimeout b) # replicate k (''save query'', CommandTimeout b)
       @ replicate n (''save resume'', CommandTimeout b)"
    "err \<noteq> None \<longrightarrow> returned = err"
    "returned = None \<longrightarrow> err = None \<and> 1 \<le> k \<and> n = 1"
    "pause w0 = None \<longrightarrow> returned = err"
    by (elim exE conjE) (rule that, assumption+)
  from le have pw: "pause w0 = pause w" by simp
  show ?thesis
  proof (cases err)
    case None
    with r d l s have "w' = Unlock w1"
      by (simp add: Backup_def)
    moreover from None kn(7) pw have "pause w = None \<longrightarrow> returned = None" by simp
    moreover from None kn(6) have "returned = None \<longrightarrow> 1 \<le> k \<and> n = 1" by simp
    ultimately show ?thesis
      using kn(1-4) le Unlock_effect [of w1]
      by - (rule exI [of _ k], rule exI [of _ n], rule exI [of _ 0], auto)
  next
    case (Some e)
    with r d l s obtain ig w2 where
      f: "saveResume Compile w1 (5 * Minute) = Some (ig, w2)" and w': "w' = Unlock w2"
      by (auto simp: Backup_def split: option.splits)
    note fe = saveResume_effect [OF c f]
    from Some kn(5) have "returned \<noteq> None" by simp
    with kn(1-4) le fe w' Unlock_effect [of w2] show ?thesis
      by - (rule exI [of _ k], rule exI [of _ n], rule exI [of _ 1], simp add: replicate_append_same)
  qed
qed

section \<open>A backup whose waits end returns\<close>













section \<open>The claims about the backup sequence\<close>

lemma count_list_replicate_other: "x \<noteq> y \<Longrightarrow> count_list (replicate k x) y = 0"
  by (induction k) auto

lemma defaultOptions_Backupper: "defaultOptions opts = (b, e) \<Longrightarrow> Backupper b = Backupper opts"
  by (auto simp: defaultOptions_def Let_def split: if_splits)

lemma returned_first:
  "(case r of None \<Rightarrow> False | Some (a, w) \<Rightarrow> a = x) \<Longrightarrow> r = Some (x, snd (the r))"
  by (cases r) auto

lemma compiles_example: "compiles example_Compile"
  by (simp add: compiles_def example_Compile_def hold_pattern_def query_pattern_def
      resume_pattern_def)

text \<open>
  Claim C1. Let the options be valid and the lock free, let the hold be acknowledged, the
  pause pass, the query loop end with a response that parses, and let the sink fail with
  error \<open>e\<close> on the parsed listing. Then, whatever the deferred resume returns (\<open>resumeErr\<close>
  may be an error), \<^verbatim>\<open>Backup\<close> returns the error \<open>e\<close> of the sink, and the commands it issued
  are one hold, one to three queries and then the resume, which is issued exactly once.
\<close>

theorem Backup_sink_error:
  assumes c: "compiles Compile"
    and d: "defaultOptions opts = (b, None)" and bk: "Backupper opts = Some backup"
    and l: "Lock w = Some w0"
    and h: "saveHold Compile w0 (CommandTimeout b) = Some (None, w1)"
    and p: "pause w1 = None"
    and q: "query_retry Compile (CommandTimeout b) 3 ([], None) w1 = Some ((out, None), w2)"
    and f: "parseSaveQuery out = (files, None)"
    and e: "backup files = Some e"
    and r: "saveResume Compile w2 (5 * Minute) = Some (resumeErr, w3)"
  shows "Backup Compile w opts = Some (Some e, Unlock w3)
    \<and> (\<exists>k. 1 \<le> k \<and> k \<le> 3 \<and> commands (Unlock w3) =
          commands w @ ''save hold'' # replicate k ''save query'' @ [''save resume''])
    \<and> count_list (drop (length (commands w)) (commands (Unlock w3))) ''save resume'' = 1"
proof -
  from d bk have bb: "Backupper b = Some backup" by (simp add: defaultOptions_Backupper)
  from h p q f e bb have s: "Backup_steps Compile b w0 = Some (Some e, Some e, w2)"
    by (simp add: Backup_steps_def)
  with d l r have 1: "Backup Compile w opts = Some (Some e, Unlock w3)"
    by (simp add: Backup_def)
  note le = Lock_effect [OF l] and he = saveHold_effect [OF c h]
    and re = saveResume_effect [OF c r]
  from query_retry_effect [OF c q] obtain k where k: "k \<le> 3" "0 < k"
    "commands w2 = commands w1 @ replicate k ''save query''" by auto
  with le he re have 2: "commands (Unlock w3) =
      commands w @ ''save hold'' # replicate k ''save query'' @ [''save resume'']"
    by (simp add: Unlock_effect)
  then have 3: "count_list (drop (length (commands w)) (commands (Unlock w3))) ''save resume'' = 1"
    by (simp add: count_list_replicate_other)
  from k have "1 \<le> k \<and> k \<le> 3" by simp
  with 1 2 3 show ?thesis by blast
qed

text \<open>
  The run of the example: the hold is acknowledged, the first query returns the listing,
  the sink fails, and the wait of the resume sees nothing until its deadline.
\<close>

theorem Backup_sink_error_witness:
  "map_option fst
     (Backup example_Compile (started [saving, listing, silence] None)
        \<lparr>Backupper = Some failingBackup, CommandTimeout = 0, SavePause = 0\<rparr>)
     = Some (Some (SinkError ''no space left on device''))
   \<and> map_option (commands \<circ> snd)
     (Backup example_Compile (started [saving, listing, silence] None)
        \<lparr>Backupper = Some failingBackup, CommandTimeout = 0, SavePause = 0\<rparr>)
     = Some [''save hold'', ''save query'', ''save resume'']"
proof -
  let ?w = "started [saving, listing, silence] None"
  let ?opts = "\<lparr>Backupper = Some failingBackup, CommandTimeout = 0, SavePause = 0\<rparr>"
  let ?b = "\<lparr>Backupper = Some failingBackup, CommandTimeout = 3 * Second,
             SavePause = 3 * Second\<rparr>"
  let ?wl = "the (Lock ?w)"
  let ?wh = "snd (the (saveHold example_Compile ?wl (CommandTimeout ?b)))"
  let ?out = "''Data saved. Files are now ready to be copied.\<newline>world/db/CURRENT:16, world/level.dat:2049, world/levelname.txt:12''"
  let ?wq = "snd (the (query_retry example_Compile (CommandTimeout ?b) 3 ([], None) ?wh))"
  let ?files = "[\<lparr>Name = ''world/db/CURRENT'', Length = 16\<rparr>,
                 \<lparr>Name = ''world/level.dat'', Length = 2049\<rparr>,
                 \<lparr>Name = ''world/levelname.txt'', Length = 12\<rparr>]"
  let ?wr = "snd (the (saveResume example_Compile ?wq (5 * Minute)))"
  have d: "defaultOptions ?opts = (?b, None)" by (simp add: defaultOptions_def)
  have bk: "Backupper ?opts = Some failingBackup" by simp
  have l: "Lock ?w = Some ?wl" by (simp add: Lock_def started_def)
  have h: "saveHold example_Compile ?wl (CommandTimeout ?b) = Some (None, ?wh)"
    by (rule returned_first) code_simp
  have p: "pause ?wh = None" by code_simp
  have q: "query_retry example_Compile (CommandTimeout ?b) 3 ([], None) ?wh
      = Some ((?out, None), ?wq)"
    by (rule returned_first) code_simp
  have f: "parseSaveQuery ?out = (?files, None)" by code_simp
  have e: "failingBackup ?files = Some (SinkError ''no space left on device'')"
    by (simp add: failingBackup_def)
  have r: "saveResume example_Compile ?wq (5 * Minute) = Some (Some DeadlineExceeded, ?wr)"
    by (rule returned_first) code_simp
  from Backup_sink_error [OF compiles_example d bk l h p q f e r]
  have "Backup example_Compile ?w ?opts
      = Some (Some (SinkError ''no space left on device''), Unlock ?wr)"
    by (rule conjunct1)
  then have 1: "map_option fst (Backup example_Compile ?w ?opts)
      = Some (Some (SinkError ''no space left on device''))"
    by simp
  have 2: "map_option (commands \<circ> snd) (Backup example_Compile ?w ?opts)
      = Some [''save hold'', ''save query'', ''save resume'']"
    by code_simp
  from 1 2 show ?thesis by (rule conjI)
qed

text \<open>
  Claim C2, as stated, does not hold: here the hold is never acknowledged, its wait ends
  with the deadline, and the call still issues a resume before it returns the error.
\<close>

theorem Backup_hold_failure_resumes:
  "map_option fst
     (Backup example_Compile (started [silence, resumed] None)
        \<lparr>Backupper = Some DummyBackup, CommandTimeout = 0, SavePause = 0\<rparr>)
     = Some (Some DeadlineExceeded)
   \<and> map_option (commands \<circ> snd)
     (Backup example_Compile (started [silence, resumed] None)
        \<lparr>Backupper = Some DummyBackup, CommandTimeout = 0, SavePause = 0\<rparr>)
     = Some [''save hold'', ''save resume'']"
  by code_simp

text \<open>
  Claim C2, amended. If the hold step fails with error \<open>e\<close>, \<^verbatim>\<open>Backup\<close> issues no query and
  returns \<open>e\<close>; the deferred closure finds \<^verbatim>\<open>err\<close> set and issues one resume, with the
  timeout of five minutes, before the call returns.
\<close>

theorem Backup_hold_failure:
  assumes c: "compiles Compile"
    and d: "defaultOptions opts = (b, None)"
    and l: "Lock w = Some w0"
    and h: "saveHold Compile w0 (CommandTimeout b) = Some (Some e, w1)"
    and r: "saveResume Compile w1 (5 * Minute) = Some (resumeErr, w2)"
  shows "Backup Compile w opts = Some (Some e, Unlock w2)
    \<and> commands (Unlock w2) = commands w @ [''save hold'', ''save resume'']
    \<and> timeouts (Unlock w2) =
        timeouts w @ [(''save hold'', CommandTimeout b), (''save resume'', 5 * Minute)]"
proof -
  from h have "Backup_steps Compile b w0 = Some (Some e, Some e, w1)"
    by (simp add: Backup_steps_def)
  with d l r have 1: "Backup Compile w opts = Some (Some e, Unlock w2)"
    by (simp add: Backup_def)
  from Lock_effect [OF l] saveHold_effect [OF c h] saveResume_effect [OF c r]
  have "commands (Unlock w2) = commands w @ [''save hold'', ''save resume'']"
    "timeouts (Unlock w2) =
        timeouts w @ [(''save hold'', CommandTimeout b), (''save resume'', 5 * Minute)]"
    by (simp_all add: Unlock_effect)
  with 1 show ?thesis by simp
qed

text \<open>Neither the hold nor the resume is acknowledged in this run.\<close>

theorem Backup_hold_failure_witness:
  "map_option fst
     (Backup example_Compile (started [silence, silence] None)
        \<lparr>Backupper = Some DummyBackup, CommandTimeout = 5 * Second, SavePause = 0\<rparr>)
     = Some (Some DeadlineExceeded)
   \<and> map_option (timeouts \<circ> snd)
     (Backup example_Compile (started [silence, silence] None)
        \<lparr>Backupper = Some DummyBackup, CommandTimeout = 5 * Second, SavePause = 0\<rparr>)
     = Some [(''save hold'', 5 * Second), (''save resume'', 5 * Minute)]"
proof -
  let ?w = "started [silence, silence] None"
  let ?opts = "\<lparr>Backupper = Some DummyBackup, CommandTimeout = 5 * Second, SavePause = 0\<rparr>"
  let ?b = "\<lparr>Backupper = Some DummyBackup, CommandTimeout = 5 * Second,
             SavePause = 3 * Second\<rparr>"
  let ?wl = "the (Lock ?w)"
  let ?wh = "snd (the (saveHold example_Compile ?wl (CommandTimeout ?b)))"
  let ?wq = "snd (the (saveResume example_Compile ?wh (5 * Minute)))"
  have d: "defaultOptions ?opts = (?b, None)" by (simp add: defaultOptions_def Second_def)
  have l: "Lock ?w = Some ?wl" by (simp add: Lock_def started_def)
  have h: "saveHold example_Compile ?wl (CommandTimeout ?b) = Some (Some DeadlineExceeded, ?wh)"
    by (rule returned_first) code_simp
  have r: "saveResume example_Compile ?wh (5 * Minute) = Some (Some DeadlineExceeded, ?wq)"
    by (rule returned_first) code_simp
  from Backup_hold_failure [OF compiles_example d l h r]
  have "Backup example_Compile ?w ?opts = Some (Some DeadlineExceeded, Unlock ?wq)"
    by (rule conjunct1)
  then have 1: "map_option fst (Backup example_Compile ?w ?opts) = Some (Some DeadlineExceeded)"
    by simp
  have 2: "map_option (timeouts \<circ> snd) (Backup example_Compile ?w ?opts)
      = Some [(''save hold'', 5 * Second), (''save resume'', 5 * Minute)]"
    by code_simp
  from 1 2 show ?thesis by (rule conjI)
qed




text \<open>
  Claim C9, as stated, does not hold: with a command timeout of ten minutes the resume
  after a failure of the sink waits five minutes, and the resume of the success path ten.
\<close>

theorem Backup_resume_timeout_shorter:
  "map_option (timeouts \<circ> snd)
     (Backup example_Compile (started [saving, listing, resumed] None)
        \<lparr>Backupper = Some failingBackup, CommandTimeout = 10 * Minute, SavePause = 0\<rparr>)
     = Some [(''save hold'', 10 * Minute), (''save query'', 10 * Minute),
             (''save resume'', 5 * Minute)]
   \<and> map_option (timeouts \<circ> snd)
     (Backup example_Compile (started [saving, listing, resumed] None)
        \<lparr>Backupper = Some DummyBackup, CommandTimeout = 10 * Minute, SavePause = 0\<rparr>)
     = Some [(''save hold'', 10 * Minute), (''save query'', 10 * Minute),
             (''save resume'', 10 * Minute)]
   \<and> 5 * Minute < 10 * Minute"
  by code_simp

text \<open>
  Claim C9, amended. The timeouts a call uses are the command timeout of the options
  (three seconds when the option is zero) for the hold, the queries and the resume of the
  success path, and five minutes, whatever the options, for the resume the deferred
  closure issues: it is issued when the call returns an error (and the pause was not
  cancelled), and never when the call returns no error. So the resume of a failure path
  has the longer timeout exactly when the command timeout is below five minutes.
\<close>

theorem Backup_resume_timeouts:
  assumes c: "compiles Compile"
    and d: "defaultOptions opts = (b, None)"
    and r: "Backup Compile w opts = Some (returned, w')"
  shows "\<exists>k n m. n \<le> 1 \<and> m \<le> 1
    \<and> timeouts w' = timeouts w
          @ (''save hold'', CommandTimeout b) # replicate k (''save query'', CommandTimeout b)
          @ replicate n (''save resume'', CommandTimeout b)
          @ replicate m (''save resume'', 5 * Minute)
    \<and> (returned = None \<longrightarrow> n = 1 \<and> m = 0)
    \<and> (returned \<noteq> None \<and> pause w = None \<longrightarrow> m = 1)
    \<and> CommandTimeout b = (if CommandTimeout opts = 0 then 3 * Second else CommandTimeout opts)"
proof -
  from d have t: "CommandTimeout b = (if CommandTimeout opts = 0 then 3 * Second else CommandTimeout opts)"
    by (auto simp: defaultOptions_def Let_def split: if_splits)
  from Backup_shape [OF c d r] obtain k n m where s: "n \<le> 1" "m \<le> 1"
    "timeouts w' = timeouts w
          @ (''save hold'', CommandTimeout b) # replicate k (''save query'', CommandTimeout b)
          @ replicate n (''save resume'', CommandTimeout b)
          @ replicate m (''save resume'', 5 * Minute)"
    "returned = None \<longrightarrow> 1 \<le> k \<and> n = 1 \<and> m = 0"
    "returned \<noteq> None \<and> pause w = None \<longrightarrow> m = 1"
    by (elim exE conjE) (rule that, assumption+)
  with t show ?thesis
    by - (rule exI [of _ k], rule exI [of _ n], rule exI [of _ m], simp)
qed

text \<open>With the default timeout: a run that succeeds, and a run whose sink fails.\<close>

theorem Backup_resume_timeouts_witness:
  "last (timeouts (snd (the
     (Backup example_Compile (started [saving, listing, resumed] None)
        \<lparr>Backupper = Some DummyBackup, CommandTimeout = 0, SavePause = 0\<rparr>))))
     = (''save resume'', 3 * Second)
   \<and> last (timeouts (snd (the
     (Backup example_Compile (started [saving, listing, resumed] None)
        \<lparr>Backupper = Some failingBackup, CommandTimeout = 0, SavePause = 0\<rparr>))))
     = (''save resume'', 5 * Minute)"
proof -
  let ?w = "started [saving, listing, resumed] None"
  let ?ok = "\<lparr>Backupper = Some DummyBackup, CommandTimeout = 0, SavePause = 0\<rparr>"
  let ?bad = "\<lparr>Backupper = Some failingBackup, CommandTimeout = 0, SavePause = 0\<rparr>"
  have d1: "defaultOptions ?ok = (fst (defaultOptions ?ok), None)"
    by (simp add: defaultOptions_def)
  have d2: "defaultOptions ?bad = (fst (defaultOptions ?bad), None)"
    by (simp add: defaultOptions_def)
  have r1: "Backup example_Compile ?w ?ok = Some (None, snd (the (Backup example_Compile ?w ?ok)))"
    by (rule returned_first) code_simp
  have r2: "Backup example_Compile ?w ?bad
      = Some (Some (SinkError ''no space left on device''),
              snd (the (Backup example_Compile ?w ?bad)))"
    by (rule returned_first) code_simp
  have p: "pause ?w = None" by (simp add: started_def)
  have t: "timeouts ?w = []" by (simp add: started_def)
  from Backup_resume_timeouts [OF compiles_example d1 r1] t
  have 1: "last (timeouts (snd (the (Backup example_Compile ?w ?ok)))) = (''save resume'', 3 * Second)"
    by auto
  from Backup_resume_timeouts [OF compiles_example d2 r2] p t
  have 2: "last (timeouts (snd (the (Backup example_Compile ?w ?bad))))
      = (''save resume'', 5 * Minute)"
    by auto
  from 1 2 show ?thesis by (rule conjI)
qed

section \<open>The claims about waiting for a response\<close>




end
